theory Spec2Isabelle
  imports Main
begin

section \<open>Syntax trees\<close>

text \<open>
  The rules read a few fields of the ESTree nodes handed to them by the host. A node
  type the rules never look into is \<open>OtherExpression\<close>, carrying its type name.
  An \<open>Identifier\<close> carries the start of its source range next to its name: the rule
  compares identifier nodes by object identity (\<open>def.name === ruleObject.context\<close>),
  and two identifier nodes of one file never start at the same offset.
\<close>

datatype literal_value =
    StringValue string
  | NumberValue string
  | BooleanValue bool
  | NullValue
  | OtherValue string

datatype expr =
    Identifier nat string
  | Literal literal_value
  | ConditionalExpression expr expr expr
  | ObjectExpression "element list"
  | FunctionExpression "expr list"
  | ArrowFunctionExpression "expr list"
  | MemberExpression expr expr
  | CallExpression expr "expr list"
  | OtherExpression string
and element =
    Property expr "string option" expr
  | MethodDefinition expr "string option" expr
  | SpreadElement expr

text \<open>
  \<open>Property key name value\<close>: \<open>name\<close> is what \<open>ASTUtils.getPropertyName\<close> returns for
  the property (\<open>None\<close> for \<open>null\<close>). That function belongs to the utilities package,
  outside these sources, and is a function of the property node alone, as it is called
  without a scope.
\<close>

fun getPropertyName :: "element \<Rightarrow> string option" where
  "getPropertyName (Property key name val) = name"
| "getPropertyName (MethodDefinition key name val) = name"
| "getPropertyName (SpreadElement argument) = None"

section \<open>Scopes\<close>

text \<open>
  A definition of a variable, as the scope manager records it: its \<open>type\<close>, the
  identifier node it binds (\<open>name\<close>), the \<open>kind\<close> of the enclosing declaration and the
  initializer \<open>node.init\<close> of the declarator. A variable is its list \<open>defs\<close>.

  \<open>ASTUtils.findVariable\<close> belongs to the utilities package, outside these sources: given
  the scope current at the call (\<open>context.getScope()\<close>) and an identifier node, it goes to
  the innermost scope around the node and looks the name up from there through the
  enclosing scopes. A scope is modelled by that lookup, a function of the identifier
  node (the start of its range and its name).
\<close>

record def =
  def_type :: string
  def_name :: expr
  def_parent_kind :: string
  def_node_init :: "expr option"

type_synonym variable = "def list"
type_synonym ident = "nat \<times> string"
type_synonym scope = "ident \<Rightarrow> variable option"

fun findVariable :: "scope \<Rightarrow> expr \<Rightarrow> variable option" where
  "findVariable scope (Identifier i x) = scope (i, x)"
| "findVariable scope node = None"

text \<open>
  The test of \<open>flattenExpressions\<close> on the variable found: exactly one definition, of
  type \<open>Variable\<close>, declared by \<open>const\<close>, with an initializer. The result is that
  initializer.
\<close>

definition constInit :: "variable option \<Rightarrow> expr option" where
  "constInit variable =
     (case variable of
        Some [d] \<Rightarrow>
          if def_type d = ''Variable'' \<and> def_parent_kind d = ''const''
          then def_node_init d else None
      | _ \<Rightarrow> None)"

section \<open>Flattening expressions and walking object literals\<close>

text \<open>
  Both generators recurse without a guard. The first argument bounds the depth of
  nested generator calls; \<open>None\<close> is the engine's \<open>RangeError\<close> when the bound is
  exceeded. The consumers of the generators run every loop to its end, so the sequence
  of yielded nodes is modelled as a list.
\<close>

fun flattenExpressions :: "nat \<Rightarrow> scope \<Rightarrow> expr \<Rightarrow> expr list option" where
  "flattenExpressions 0 scope node = None"
| "flattenExpressions (Suc d) scope (Identifier i x) =
     (case constInit (findVariable scope (Identifier i x)) of
        Some init \<Rightarrow> flattenExpressions d scope init
      | None \<Rightarrow> Some [Identifier i x])"
| "flattenExpressions (Suc d) scope (ConditionalExpression test consequent alternate) =
     (case flattenExpressions d scope consequent of
        None \<Rightarrow> None
      | Some xs \<Rightarrow>
          (case flattenExpressions d scope alternate of
             None \<Rightarrow> None
           | Some ys \<Rightarrow> Some (xs @ ys)))"
| "flattenExpressions (Suc d) scope node = Some [node]"

text \<open>
  \<open>iterateProperties\<close> takes \<open>node.properties\<close>. \<open>iterateShapes\<close> is its inner loop over
  the flattening of a spread argument: it returns what the loop yields and the final
  value of the local \<open>hasUnknown\<close>.
\<close>

function (sequential) iterateProperties :: "nat \<Rightarrow> scope \<Rightarrow> element list \<Rightarrow> element list option"
  and iterateShapes :: "nat \<Rightarrow> scope \<Rightarrow> expr list \<Rightarrow> (element list \<times> bool) option"
where
  "iterateProperties 0 scope props = None"
| "iterateProperties (Suc d) scope [] = Some []"
| "iterateProperties (Suc d) scope (SpreadElement argument # props) =
     (case flattenExpressions d scope argument of
        None \<Rightarrow> None
      | Some exprs \<Rightarrow>
          (case iterateShapes d scope exprs of
             None \<Rightarrow> None
           | Some (ys, hasUnknown) \<Rightarrow>
               (case iterateProperties (Suc d) scope props of
                  None \<Rightarrow> None
                | Some zs \<Rightarrow>
                    Some (ys @ (if hasUnknown then [SpreadElement argument] else []) @ zs))))"
| "iterateProperties (Suc d) scope (Property key name val # props) =
     (case iterateProperties (Suc d) scope props of
        None \<Rightarrow> None
      | Some zs \<Rightarrow> Some (Property key name val # zs))"
| "iterateProperties (Suc d) scope (MethodDefinition key name val # props) =
     (case iterateProperties (Suc d) scope props of
        None \<Rightarrow> None
      | Some zs \<Rightarrow> Some (MethodDefinition key name val # zs))"
| "iterateShapes d scope [] = Some ([], False)"
| "iterateShapes d scope (ObjectExpression ps # exprs) =
     (case iterateProperties d scope ps of
        None \<Rightarrow> None
      | Some ys \<Rightarrow>
          (case iterateShapes d scope exprs of
             None \<Rightarrow> None
           | Some (zs, hasUnknown) \<Rightarrow> Some (ys @ zs, hasUnknown)))"
| "iterateShapes d scope (ex # exprs) =
     (case iterateShapes d scope exprs of
        None \<Rightarrow> None
      | Some (zs, hasUnknown) \<Rightarrow> Some (zs, True))"
  by pat_completeness auto
termination
  by (relation "measures
        [\<lambda>a. case a of Inl (d, s, ps) \<Rightarrow> 2 * d | Inr (d, s, es) \<Rightarrow> 2 * d + 1,
         \<lambda>a. case a of Inl (d, s, ps) \<Rightarrow> length ps | Inr (d, s, es) \<Rightarrow> length es]") auto

section \<open>The rule \<open>valid-rule-meta\<close>\<close>

datatype message_id =
    shouldBeFixable
  | shouldNotBeFixable
  | shouldBeSuggestable
  | shouldNotBeSuggestable

text \<open>The node a diagnostic is anchored on: a property key or a whole property.\<close>

datatype anchor = KeyNode expr | PropertyNode element

record diagnostic =
  node :: anchor
  messageId :: message_id

text \<open>\<open>context.report({node, messageId})\<close>: the diagnostic handed to the host.\<close>

definition context_report :: "anchor \<Rightarrow> message_id \<Rightarrow> diagnostic" where
  "context_report n mid = \<lparr>node = n, messageId = mid\<rparr>"

definition reports :: "expr list \<Rightarrow> message_id \<Rightarrow> diagnostic list" where
  "reports nodes mid = map (\<lambda>n. context_report (KeyNode n) mid) nodes"

record report_findings =
  suggestNodes :: "expr list"
  fixNodes :: "expr list"
  hasUnknown :: bool
  found :: bool

text \<open>
  \<open>meta\<close> holds the properties of the object expression \<open>meta.value\<close>; \<open>context'\<close> is
  the identifier node of the first parameter of \<open>create\<close>.
\<close>

record rule_object =
  meta :: "element list"
  context' :: expr
  report :: report_findings

fun propertyValue :: "element \<Rightarrow> expr option" where
  "propertyValue (Property key name val) = Some val"
| "propertyValue prop = None"

subsection \<open>The handler of \<open>ObjectExpression\<close>\<close>

text \<open>One round of the loop that looks for the properties \<open>meta\<close> and \<open>create\<close>.\<close>

fun metaCreateStep :: "element \<Rightarrow> element option \<times> element option \<Rightarrow> element option \<times> element option" where
  "metaCreateStep (Property key name val) (m, c) =
     (if getPropertyName (Property key name val) = Some ''meta''
      then (Some (Property key name val), c)
      else if getPropertyName (Property key name val) = Some ''create''
      then (m, Some (Property key name val))
      else (m, c))"
| "metaCreateStep prop (m, c) = (m, c)"

text \<open>\<open>create.value.params\<close>, when \<open>create.value\<close> is a function or an arrow function.\<close>

fun functionParams :: "expr \<Rightarrow> expr list option" where
  "functionParams (FunctionExpression params) = Some params"
| "functionParams (ArrowFunctionExpression params) = Some params"
| "functionParams ex = None"

definition visit_ObjectExpression :: "rule_object option \<Rightarrow> element list \<Rightarrow> rule_object option" where
  "visit_ObjectExpression ruleObject properties =
     (case ruleObject of
        Some r \<Rightarrow> ruleObject
      | None \<Rightarrow>
          (case fold metaCreateStep properties (None, None) of
             (Some (Property mkey mname (ObjectExpression mprops)), Some (Property ckey cname cval)) \<Rightarrow>
               (case functionParams cval of
                  Some (Identifier i x # params) \<Rightarrow>
                    Some \<lparr>meta = mprops, context' = Identifier i x,
                          report = \<lparr>suggestNodes = [], fixNodes = [],
                                    hasUnknown = False, found = False\<rparr>\<rparr>
                | _ \<Rightarrow> None)
           | _ \<Rightarrow> None))"

subsection \<open>The handler of \<open>CallExpression\<close>\<close>

text \<open>One round of the loop over the properties of a report descriptor.\<close>

fun collectStep :: "element \<Rightarrow> report_findings \<Rightarrow> report_findings" where
  "collectStep (Property key name val) rep =
     (if getPropertyName (Property key name val) = Some ''suggest''
      then rep\<lparr>suggestNodes := suggestNodes rep @ [key]\<rparr>
      else if getPropertyName (Property key name val) = Some ''fix''
      then rep\<lparr>fixNodes := fixNodes rep @ [key]\<rparr>
      else rep)"
| "collectStep prop rep = rep\<lparr>hasUnknown := True\<rparr>"

text \<open>
  The two guards of the handler after \<open>!ruleObject\<close>. \<open>isReportMember\<close>: the callee is
  \<open>x.report\<close>, with \<open>x\<close> and \<open>report\<close> identifiers. \<open>bindsContext\<close>: the variable of
  \<open>callee.object\<close> is found and one of its definitions binds the identifier node \<open>ctx\<close>.
\<close>

fun isReportMember :: "expr \<Rightarrow> bool" where
  "isReportMember (MemberExpression (Identifier i x) (Identifier j p)) = (p = ''report'')"
| "isReportMember callee = False"

fun bindsContext :: "scope \<Rightarrow> expr \<Rightarrow> expr \<Rightarrow> bool" where
  "bindsContext scope ctx (MemberExpression object property) =
     (case findVariable scope object of
        None \<Rightarrow> False
      | Some defs \<Rightarrow> \<exists>d \<in> set defs. def_name d = ctx)"
| "bindsContext scope ctx callee = False"

definition visit_CallExpression ::
  "nat \<Rightarrow> scope \<Rightarrow> rule_object option \<Rightarrow> expr \<Rightarrow> expr list \<Rightarrow> rule_object option option" where
  "visit_CallExpression depth scope ruleObject callee arguments =
     (case ruleObject of
        None \<Rightarrow> Some None
      | Some r \<Rightarrow>
          if \<not> isReportMember callee \<or> length arguments \<noteq> 1 then Some (Some r)
          else if \<not> bindsContext scope (context' r) callee then Some (Some r)
          else
            (case arguments of
               [ObjectExpression descriptor] \<Rightarrow>
                 (case iterateProperties depth scope descriptor of
                    None \<Rightarrow> None
                  | Some props \<Rightarrow>
                      Some (Some (r\<lparr>report := fold collectStep props ((report r)\<lparr>found := True\<rparr>)\<rparr>)))
             | _ \<Rightarrow> Some (Some (r\<lparr>report := (report r)\<lparr>found := True, hasUnknown := True\<rparr>\<rparr>))))"

subsection \<open>The handler of \<open>Program:exit\<close>\<close>

text \<open>
  One round of the loop over the properties of \<open>meta\<close>; the state is
  \<open>(fixableProp, hasSuggestionsProp, hasSpread)\<close>.
\<close>

fun metaStep :: "element \<Rightarrow> element option \<times> element option \<times> bool \<Rightarrow> element option \<times> element option \<times> bool" where
  "metaStep (SpreadElement argument) (f, s, hasSpread) = (f, s, True)"
| "metaStep (Property key name val) (f, s, hasSpread) =
     (if getPropertyName (Property key name val) = Some ''fixable''
      then (Some (Property key name val), s, hasSpread)
      else if getPropertyName (Property key name val) = Some ''hasSuggestions''
      then (f, Some (Property key name val), hasSpread)
      else (f, s, hasSpread))"
| "metaStep prop (f, s, hasSpread) = (f, s, hasSpread)"

text \<open>
  The test on \<open>fixableProp.value\<close>: the literal \<open>null\<close> or the identifier
  \<open>undefined\<close>.
\<close>

fun isNullOrUndefined :: "expr \<Rightarrow> bool" where
  "isNullOrUndefined (Literal v) = (v = NullValue)"
| "isNullOrUndefined (Identifier i x) = (x = ''undefined'')"
| "isNullOrUndefined ex = False"

text \<open>The first \<open>if\<close> statement after the loop (on \<open>fixNodes\<close>).\<close>

definition checkFixable :: "report_findings \<Rightarrow> element option \<Rightarrow> bool \<Rightarrow> diagnostic list" where
  "checkFixable rep fixableProp hasSpread =
     (if fixNodes rep \<noteq> [] then
        (if hasSpread then []
         else (case fixableProp of
                 None \<Rightarrow> reports (fixNodes rep) shouldBeFixable
               | Some prop \<Rightarrow>
                   (case propertyValue prop of
                      Some v \<Rightarrow>
                        if isNullOrUndefined v
                        then reports (fixNodes rep) shouldBeFixable else []
                    | None \<Rightarrow> [])))
      else if \<not> hasUnknown rep then
        (case fixableProp of
           Some prop \<Rightarrow>
             (case propertyValue prop of
                Some (Literal (StringValue v)) \<Rightarrow>
                  [context_report (PropertyNode prop) shouldNotBeFixable]
              | _ \<Rightarrow> [])
         | None \<Rightarrow> [])
      else [])"

text \<open>The second \<open>if\<close> statement (on \<open>suggestNodes\<close>).\<close>

definition checkSuggestable :: "report_findings \<Rightarrow> element option \<Rightarrow> bool \<Rightarrow> diagnostic list" where
  "checkSuggestable rep hasSuggestionsProp hasSpread =
     (if suggestNodes rep \<noteq> [] then
        (if hasSpread then []
         else (case hasSuggestionsProp of
                 None \<Rightarrow> reports (suggestNodes rep) shouldBeSuggestable
               | Some prop \<Rightarrow>
                   (case propertyValue prop of
                      Some (Literal v) \<Rightarrow>
                        if v \<noteq> BooleanValue True
                        then reports (suggestNodes rep) shouldBeSuggestable else []
                    | _ \<Rightarrow> [])))
      else if \<not> hasUnknown rep then
        (case hasSuggestionsProp of
           Some prop \<Rightarrow>
             if propertyValue prop = Some (Literal (BooleanValue True))
             then [context_report (PropertyNode prop) shouldNotBeSuggestable] else []
         | None \<Rightarrow> [])
      else [])"

definition visit_Program_exit :: "nat \<Rightarrow> scope \<Rightarrow> rule_object option \<Rightarrow> diagnostic list option" where
  "visit_Program_exit depth scope ruleObject =
     (case ruleObject of
        None \<Rightarrow> Some []
      | Some r \<Rightarrow>
          if \<not> found (report r) then Some []
          else
            (case iterateProperties depth scope (meta r) of
               None \<Rightarrow> None
             | Some props \<Rightarrow>
                 (case fold metaStep props (None, None, False) of
                    (fixableProp, hasSuggestionsProp, hasSpread) \<Rightarrow>
                      Some (checkFixable (report r) fixableProp hasSpread @
                            checkSuggestable (report r) hasSuggestionsProp hasSpread))))"

subsection \<open>One file\<close>

text \<open>
  The host walks the tree and calls the handlers; the order of the calls and the scope
  current at each call are the host's. A traversal is the list of those calls, then
  \<open>Program:exit\<close>. A \<open>RangeError\<close> in a handler ends the run.
\<close>

datatype event =
    ObjectExpressionNode "element list"
  | CallExpressionNode scope expr "expr list"

fun traverse :: "nat \<Rightarrow> rule_object option \<Rightarrow> event list \<Rightarrow> rule_object option option" where
  "traverse depth ruleObject [] = Some ruleObject"
| "traverse depth ruleObject (ObjectExpressionNode properties # events) =
     traverse depth (visit_ObjectExpression ruleObject properties) events"
| "traverse depth ruleObject (CallExpressionNode scope callee arguments # events) =
     (case visit_CallExpression depth scope ruleObject callee arguments of
        None \<Rightarrow> None
      | Some ruleObject' \<Rightarrow> traverse depth ruleObject' events)"

definition lint :: "nat \<Rightarrow> event list \<Rightarrow> scope \<Rightarrow> diagnostic list option" where
  "lint depth events exitScope =
     (case traverse depth None events of
        None \<Rightarrow> None
      | Some ruleObject \<Rightarrow> visit_Program_exit depth exitScope ruleObject)"

section \<open>The rule \<open>no-restricted-imports\<close>: \<open>verify\<close>\<close>

text \<open>
  An import or export declaration: its \<open>source\<close> (\<open>None\<close> for \<open>null\<close>) and the start
  of its range, which stands for the node in a diagnostic.
\<close>

record module_declaration =
  source :: "expr option"
  decl_start :: nat

text \<open>
  The parsed options. \<open>importNames\<close> is a set in insertion order, or absent; the
  \<open>matcher\<close> of a pattern group is the \<open>ignores\<close> test of the \<open>ignore\<close> package, which
  is outside these sources.
\<close>

record parsed_path_option =
  path_name :: string
  path_importKind :: string
  path_importNames :: "string list option"
  path_customMessage :: "string option"

record parsed_pattern_group =
  group_ignores :: "string \<Rightarrow> bool"
  group_importKind :: string
  group_customMessage :: "string option"

record import_diagnostic =
  import_node :: module_declaration
  import_messageId :: string
  import_loc :: "nat option"
  importSource :: string
  importNames :: "string option"
  importName :: "string option"
  importKindPhrase :: string
  customMessage :: "string option"

fun isStringLiteral :: "expr option \<Rightarrow> bool" where
  "isStringLiteral (Some (Literal (StringValue v))) = True"
| "isStringLiteral ex = False"

text \<open>\<open>String.prototype.trim\<close>, on the white space of ASCII.\<close>

definition isWhiteSpace :: "char \<Rightarrow> bool" where
  "isWhiteSpace c = (c \<in> set [CHR '' '', CHR 0x09, CHR 0x0A, CHR 0x0B, CHR 0x0C, CHR 0x0D])"

definition trim :: "string \<Rightarrow> string" where
  "trim s = rev (dropWhile isWhiteSpace (rev (dropWhile isWhiteSpace s)))"

definition importKindPhraseOf :: "string \<Rightarrow> string" where
  "importKindPhraseOf kind =
     (if kind = ''type'' then ''type-only import''
      else if kind = ''value'' then ''import''
      else ''type-only import and import'')"

text \<open>
  The local function \<open>report\<close>; \<open>kind\<close> and \<open>custom\<close> are \<open>restricted.importKind\<close> and
  \<open>restricted.customMessage\<close>. An empty custom message is falsy.
\<close>

definition report_import ::
  "module_declaration \<Rightarrow> nat list option \<Rightarrow> string \<Rightarrow> string \<Rightarrow> string option \<Rightarrow>
   string \<Rightarrow> string option \<Rightarrow> string option \<Rightarrow> import_diagnostic list" where
  "report_import decl locs baseMessageId kind custom src names nm =
     (let mid = (if custom \<noteq> None \<and> custom \<noteq> Some []
                 then baseMessageId @ ''WithCustomMessage'' else baseMessageId);
          mk = (\<lambda>l. \<lparr>import_node = decl, import_messageId = mid, import_loc = l,
                      importSource = src, importNames = names, importName = nm,
                      importKindPhrase = importKindPhraseOf kind, customMessage = custom\<rparr>)
      in case locs of
           Some ls \<Rightarrow> map (\<lambda>l. mk (Some l)) ls
         | None \<Rightarrow> [mk None])"

text \<open>The map from import names to their locations, in insertion order.\<close>

fun addImportName :: "string \<times> nat \<Rightarrow> (string \<times> nat list) list \<Rightarrow> (string \<times> nat list) list" where
  "addImportName (nm, loc) [] = [(nm, [loc])]"
| "addImportName (nm, loc) ((k, locs) # m) =
     (if k = nm then (k, locs @ [loc]) # m else (k, locs) # addImportName (nm, loc) m)"

fun joinComma :: "string list \<Rightarrow> string" where
  "joinComma [] = []"
| "joinComma [x] = x"
| "joinComma (x # xs) = x @ '','' @ joinComma xs"

definition kindMatches :: "string \<Rightarrow> string \<Rightarrow> bool" where
  "kindMatches restrictedKind importKind = (restrictedKind = ''all'' \<or> restrictedKind = importKind)"

text \<open>
  \<open>generateImportNames\<close> is the list the generator yields, or \<open>None\<close> when it throws
  (\<open>nullThrows\<close> in the handler of \<open>ExportAllDeclaration\<close>); it runs only when a
  restricted path was found. The result \<open>None\<close> is that exception.
\<close>

definition verify ::
  "parsed_path_option list \<Rightarrow> parsed_pattern_group list \<Rightarrow> module_declaration \<Rightarrow> string \<Rightarrow>
   (string \<times> nat) list option \<Rightarrow> import_diagnostic list option" where
  "verify restrictedPaths restrictedPatternGroups decl importKind generateImportNames =
     (if \<not> isStringLiteral (source decl) then Some []
      else
        (case source decl of
           Some (Literal (StringValue v)) \<Rightarrow>
             (let src = trim v;
                  patternReports =
                    concat (map (\<lambda>g.
                      if group_ignores g src \<and> kindMatches (group_importKind g) importKind
                      then report_import decl None ''patterns'' (group_importKind g)
                             (group_customMessage g) src None None
                      else []) restrictedPatternGroups)
              in case find (\<lambda>rp. path_name rp = src \<and> kindMatches (path_importKind rp) importKind)
                        restrictedPaths of
                   None \<Rightarrow> Some patternReports
                 | Some rp \<Rightarrow>
                     (case generateImportNames of
                        None \<Rightarrow> None
                      | Some generated \<Rightarrow>
                          (let collected = fold addImportName generated []
                           in case path_importNames rp of
                                Some restrictedImportNames \<Rightarrow>
                                  Some (concat (map (\<lambda>(nm, locs).
                                     if nm = ''*''
                                     then report_import decl (Some locs) ''everything''
                                            (path_importKind rp) (path_customMessage rp) src
                                            (Some (joinComma restrictedImportNames)) None
                                     else if nm \<in> set restrictedImportNames
                                     then report_import decl (Some locs) ''importName''
                                            (path_importKind rp) (path_customMessage rp) src
                                            None (Some nm)
                                     else []) collected) @ patternReports)
                              | None \<Rightarrow>
                                  Some (report_import decl None ''path'' (path_importKind rp)
                                          (path_customMessage rp) src None None @ patternReports))))
         | _ \<Rightarrow> Some []))"

text \<open>
  The three handlers of the rule. Each calls \<open>verify\<close> with the kind of the declaration
  and a generator of the imported or exported names. The generator of
  \<open>ExportAllDeclaration\<close> throws when the declaration has no second token (\<open>star\<close> is the
  location of that token).
\<close>

datatype import_specifier =
    ImportDefaultSpecifier nat
  | ImportNamespaceSpecifier nat
  | ImportSpecifier string nat

datatype export_specifier = ExportSpecifier string nat

datatype module_node =
    ImportDeclaration module_declaration string "import_specifier list"
  | ExportNamedDeclaration module_declaration string "export_specifier list"
  | ExportAllDeclaration module_declaration string "nat option"

fun importedName :: "import_specifier \<Rightarrow> string \<times> nat" where
  "importedName (ImportDefaultSpecifier loc) = (''default'', loc)"
| "importedName (ImportNamespaceSpecifier loc) = (''*'', loc)"
| "importedName (ImportSpecifier imported loc) = (imported, loc)"

fun exportedName :: "export_specifier \<Rightarrow> string \<times> nat" where
  "exportedName (ExportSpecifier local loc) = (local, loc)"

fun declarationOf :: "module_node \<Rightarrow> module_declaration" where
  "declarationOf (ImportDeclaration decl kind specifiers) = decl"
| "declarationOf (ExportNamedDeclaration decl kind specifiers) = decl"
| "declarationOf (ExportAllDeclaration decl kind star) = decl"

fun visit_module_node ::
  "parsed_path_option list \<Rightarrow> parsed_pattern_group list \<Rightarrow> module_node \<Rightarrow>
   import_diagnostic list option" where
  "visit_module_node restrictedPaths restrictedPatternGroups (ImportDeclaration decl kind specifiers) =
     verify restrictedPaths restrictedPatternGroups decl kind (Some (map importedName specifiers))"
| "visit_module_node restrictedPaths restrictedPatternGroups (ExportNamedDeclaration decl kind specifiers) =
     verify restrictedPaths restrictedPatternGroups decl kind (Some (map exportedName specifiers))"
| "visit_module_node restrictedPaths restrictedPatternGroups (ExportAllDeclaration decl kind star) =
     verify restrictedPaths restrictedPatternGroups decl kind
       (case star of None \<Rightarrow> None | Some loc \<Rightarrow> Some [(''*'', loc)])"

text \<open>
  \<open>create\<close> installs no handler when the options restrict nothing; otherwise every
  import or export declaration is visited by its handler.
\<close>

definition no_restricted_imports ::
  "parsed_path_option list \<Rightarrow> parsed_pattern_group list \<Rightarrow> module_node \<Rightarrow>
   import_diagnostic list option" where
  "no_restricted_imports restrictedPaths restrictedPatternGroups n =
     (if restrictedPaths = [] \<and> restrictedPatternGroups = [] then Some []
      else visit_module_node restrictedPaths restrictedPatternGroups n)"

section \<open>The specification's notions\<close>

fun isObjectExpression :: "expr \<Rightarrow> bool" where
  "isObjectExpression (ObjectExpression props) = True"
| "isObjectExpression ex = False"

fun isSpreadElement :: "element \<Rightarrow> bool" where
  "isSpreadElement (SpreadElement argument) = True"
| "isSpreadElement prop = False"

fun isProperty :: "element \<Rightarrow> bool" where
  "isProperty (Property key name val) = True"
| "isProperty prop = False"

subsection \<open>The flattening of an expression, as the specification words it\<close>

text \<open>
  An identifier is followed when its binding has exactly one declaration, a \<open>const\<close>
  with an initializer; a conditional expression is always followed into its branches.
\<close>

fun followed :: "scope \<Rightarrow> expr \<Rightarrow> bool" where
  "followed scope (Identifier i x) = (constInit (scope (i, x)) \<noteq> None)"
| "followed scope (ConditionalExpression test consequent alternate) = True"
| "followed scope ex = False"

inductive flattening :: "scope \<Rightarrow> expr \<Rightarrow> expr list \<Rightarrow> bool" for scope where
  initializer:
    "constInit (scope (i, x)) = Some init \<Longrightarrow> flattening scope init ys \<Longrightarrow>
     flattening scope (Identifier i x) ys"
| branches:
    "flattening scope consequent xs \<Longrightarrow> flattening scope alternate ys \<Longrightarrow>
     flattening scope (ConditionalExpression test consequent alternate) (xs @ ys)"
| itself:
    "\<not> followed scope ex \<Longrightarrow> flattening scope ex [ex]"

code_pred flattening .

subsection \<open>The logical properties of an object literal, as the specification words it\<close>

inductive walk :: "scope \<Rightarrow> element list \<Rightarrow> element list \<Rightarrow> bool"
  and walkShapes :: "scope \<Rightarrow> expr list \<Rightarrow> element list \<Rightarrow> bool" for scope where
  no_property: "walk scope [] []"
| ordinary:
    "\<not> isSpreadElement prop \<Longrightarrow> walk scope props zs \<Longrightarrow> walk scope (prop # props) (prop # zs)"
| spread:
    "flattening scope argument shapes \<Longrightarrow> walkShapes scope shapes ys \<Longrightarrow>
     walk scope props zs \<Longrightarrow>
     walk scope (SpreadElement argument # props)
       (ys @ (if list_all isObjectExpression shapes then [] else [SpreadElement argument]) @ zs)"
| no_shape: "walkShapes scope [] []"
| object_shape:
    "walk scope ps ys \<Longrightarrow> walkShapes scope shapes zs \<Longrightarrow>
     walkShapes scope (ObjectExpression ps # shapes) (ys @ zs)"
| opaque_shape:
    "\<not> isObjectExpression ex \<Longrightarrow> walkShapes scope shapes zs \<Longrightarrow>
     walkShapes scope (ex # shapes) zs"

code_pred walk .

subsection \<open>Bindings whose resolution cannot come back to itself\<close>

text \<open>
  The identifiers the two generators may look up below an expression: the expression
  itself when it is an identifier, the branches of a conditional expression, the spread
  arguments of an object expression.
\<close>

fun followedIdentifiers :: "expr \<Rightarrow> ident list"
  and followedIdentifiersOf :: "element \<Rightarrow> ident list" where
  "followedIdentifiers (Identifier i x) = [(i, x)]"
| "followedIdentifiers (ConditionalExpression test consequent alternate) =
     followedIdentifiers consequent @ followedIdentifiers alternate"
| "followedIdentifiers (ObjectExpression props) = concat (map followedIdentifiersOf props)"
| "followedIdentifiers (Literal v) = []"
| "followedIdentifiers (FunctionExpression params) = []"
| "followedIdentifiers (ArrowFunctionExpression params) = []"
| "followedIdentifiers (MemberExpression object property) = []"
| "followedIdentifiers (CallExpression callee arguments) = []"
| "followedIdentifiers (OtherExpression t) = []"
| "followedIdentifiersOf (SpreadElement argument) = followedIdentifiers argument"
| "followedIdentifiersOf (Property key name val) = []"
| "followedIdentifiersOf (MethodDefinition key name val) = []"

text \<open>
  \<open>ranked rank scope\<close>: every \<open>const\<close> initializer that is followed only leads to
  identifiers of a smaller rank, so that no chain of resolutions revisits a binding.
\<close>

definition ranked :: "(ident \<Rightarrow> nat) \<Rightarrow> scope \<Rightarrow> bool" where
  "ranked rank scope =
     (\<forall>x init. constInit (scope x) = Some init \<longrightarrow>
        (\<forall>y \<in> set (followedIdentifiers init). rank y < rank x))"

text \<open>
  \<open>settles scope ex\<close>: on some stack, the flattening of \<open>ex\<close> returns and the walk of
  all its object shapes returns.
\<close>

definition settles :: "scope \<Rightarrow> expr \<Rightarrow> bool" where
  "settles scope ex =
     (\<exists>d shapes yu. flattenExpressions d scope ex = Some shapes \<and>
        iterateShapes d scope shapes = Some yu)"

subsection \<open>What \<open>meta\<close> declares, what a diagnostic is\<close>

text \<open>The declaration of \<open>name\<close> among yielded properties: the last property of that name.\<close>

definition declaredProp :: "string \<Rightarrow> element list \<Rightarrow> element option" where
  "declaredProp name props =
     find (\<lambda>prop. isProperty prop \<and> getPropertyName prop = Some name) (rev props)"




text \<open>
  The shape \<open>{meta, create}\<close> of a rule object: \<open>meta\<close> is an object expression and
  \<open>create\<close> a function whose first parameter is an identifier. The result is the
  properties of \<open>meta\<close> and that identifier.
\<close>

definition ruleShape :: "element list \<Rightarrow> (element list \<times> expr) option" where
  "ruleShape props =
     (case (declaredProp ''meta'' props, declaredProp ''create'' props) of
        (Some m, Some c) \<Rightarrow>
          (case (propertyValue m, propertyValue c) of
             (Some (ObjectExpression mprops), Some cval) \<Rightarrow>
               (case functionParams cval of
                  Some (Identifier i x # params) \<Rightarrow> Some (mprops, Identifier i x)
                | _ \<Rightarrow> None)
           | _ \<Rightarrow> None)
      | _ \<Rightarrow> None)"



text \<open>The findings of a rule object that was just created.\<close>

definition emptyFindings :: report_findings where
  "emptyFindings = \<lparr>suggestNodes = [], fixNodes = [], hasUnknown = False, found = False\<rparr>"



section \<open>Example files\<close>

text \<open>
  The file of the rule's tests: \<open>createRule({meta: {...}, create(context) {...}})\<close>, with
  calls \<open>context.report({...})\<close> inside \<open>create\<close>.
\<close>

definition noScope :: scope where
  "noScope = (\<lambda>x. None)"

text \<open>A scope in which every identifier named \<open>x\<close> resolves to the variable \<open>v\<close>.\<close>

definition declared :: "string \<Rightarrow> variable \<Rightarrow> scope \<Rightarrow> scope" where
  "declared x v scope = (\<lambda>n. if snd n = x then Some v else scope n)"

definition contextParam :: expr where
  "contextParam = Identifier 40 ''context''"

definition createScope :: scope where
  "createScope = declared ''context''
     [\<lparr>def_type = ''Parameter'', def_name = contextParam,
       def_parent_kind = [], def_node_init = None\<rparr>] noScope"

definition ruleProperties :: "element list \<Rightarrow> element list" where
  "ruleProperties metaProps =
     [Property (Identifier 10 ''meta'') (Some ''meta'') (ObjectExpression metaProps),
      Property (Identifier 30 ''create'') (Some ''create'') (FunctionExpression [contextParam])]"

definition ruleNode :: "element list \<Rightarrow> event" where
  "ruleNode metaProps = ObjectExpressionNode (ruleProperties metaProps)"

definition reportCallee :: expr where
  "reportCallee = MemberExpression (Identifier 60 ''context'') (Identifier 68 ''report'')"

definition reportCall :: "element list \<Rightarrow> event" where
  "reportCall descriptor = CallExpressionNode createScope reportCallee [ObjectExpression descriptor]"

definition nodeProperty :: element where
  "nodeProperty = Property (Identifier 77 ''node'') (Some ''node'') (Identifier 77 ''node'')"

definition fixProperty :: element where
  "fixProperty = Property (Identifier 83 ''fix'') (Some ''fix'') (FunctionExpression [])"

definition suggestProperty :: element where
  "suggestProperty =
     Property (Identifier 93 ''suggest'') (Some ''suggest'') (OtherExpression ''ArrayExpression'')"

definition fixableCode :: element where
  "fixableCode =
     Property (Identifier 12 ''fixable'') (Some ''fixable'') (Literal (StringValue ''code''))"

definition constDef :: "nat \<Rightarrow> string \<Rightarrow> expr \<Rightarrow> def" where
  "constDef i x init = \<lparr>def_type = ''Variable'', def_name = Identifier i x,
     def_parent_kind = ''const'', def_node_init = Some init\<rparr>"

text \<open>\<open>const a = a;\<close>\<close>

definition selfScope :: scope where
  "selfScope = declared ''a'' [constDef 6 ''a'' (Identifier 10 ''a'')] noScope"

text \<open>\<open>const base = { fix() {} };\<close> and the expression \<open>c ? base : other\<close>\<close>

definition baseScope :: scope where
  "baseScope = declared ''base'' [constDef 6 ''base'' (ObjectExpression [fixProperty])] noScope"

definition conditionalExample :: expr where
  "conditionalExample =
     ConditionalExpression (Identifier 50 ''c'') (Identifier 54 ''base'') (Identifier 61 ''other'')"

text \<open>The same, with \<open>const chosen = c ? base : other;\<close>\<close>

definition chainScope :: scope where
  "chainScope = declared ''chosen'' [constDef 36 ''chosen'' conditionalExample] baseScope"

definition chainRank :: "ident \<Rightarrow> nat" where
  "chainRank n = (if snd n = ''chosen'' then 2 else if snd n = ''base'' then 1 else 0)"

text \<open>The rule object of \<open>ruleNode metaProps\<close> with the findings \<open>rep\<close>.\<close>

definition ruleObjectOf :: "element list \<Rightarrow> report_findings \<Rightarrow> rule_object" where
  "ruleObjectOf metaProps rep = \<lparr>meta = metaProps, context' = contextParam, report = rep\<rparr>"



text \<open>\<open>const ruleMeta = { fixable: 'code' };\<close> and \<open>meta: { ...ruleMeta }\<close>\<close>

definition ruleMetaSpread :: element where
  "ruleMetaSpread = SpreadElement (Identifier 15 ''ruleMeta'')"

definition ruleMetaScope :: scope where
  "ruleMetaScope =
     declared ''ruleMeta'' [constDef 6 ''ruleMeta'' (ObjectExpression [fixableCode])] noScope"


text \<open>\<open>context.report({ node, fix() {} }, extra)\<close>\<close>

definition twoArguments :: event where
  "twoArguments = CallExpressionNode createScope reportCallee
     [ObjectExpression [nodeProperty, fixProperty], Identifier 120 ''extra'']"

text \<open>\<open>export { a };\<close> has no source.\<close>

definition localExport :: module_declaration where
  "localExport = \<lparr>source = None, decl_start = 0\<rparr>"

text \<open>\<open>export * from ' fs '\<close>, with and without its second token; the path \<open>fs\<close>.\<close>

definition fsExport :: module_declaration where
  "fsExport = \<lparr>source = Some (Literal (StringValue '' fs '')), decl_start = 0\<rparr>"

definition fsPath :: parsed_path_option where
  "fsPath = \<lparr>path_name = ''fs'', path_importKind = ''all'', path_importNames = None,
     path_customMessage = None\<rparr>"

text \<open>A restricted path, and a pattern group whose matcher ignores every source.\<close>

definition anyPath :: parsed_path_option where
  "anyPath = \<lparr>path_name = [], path_importKind = ''all'', path_importNames = None,
     path_customMessage = None\<rparr>"

definition anyPattern :: parsed_pattern_group where
  "anyPattern = \<lparr>group_ignores = (\<lambda>src. True), group_importKind = ''all'',
     group_customMessage = None\<rparr>"

section \<open>A deeper stack never changes a result\<close>

lemma flattenExpressions_Suc:
  "flattenExpressions d scope ex = Some ys \<Longrightarrow> flattenExpressions (Suc d) scope ex = Some ys"
proof (induction d scope ex arbitrary: ys rule: flattenExpressions.induct)
  case (1 scope node)
  then show ?case by simp
next
  case (2 d scope i x)
  then show ?case by (cases "constInit (scope (i, x))") auto
next
  case (3 d scope test consequent alternate)
  then show ?case by (auto split: option.splits)
qed simp_all

lemma flattenExpressions_mono:
  assumes "flattenExpressions d scope ex = Some ys" and "d \<le> d'"
  shows "flattenExpressions d' scope ex = Some ys"
  using assms(2,1) by (induction rule: dec_induct) (auto intro: flattenExpressions_Suc)

lemma iterate_Suc:
  "iterateProperties d scope props = Some ys \<Longrightarrow> iterateProperties (Suc d) scope props = Some ys"
  "iterateShapes d scope shapes = Some yu \<Longrightarrow> iterateShapes (Suc d) scope shapes = Some yu"
proof (induction d scope props and d scope shapes arbitrary: ys and yu rule: iterateProperties_iterateShapes.induct)
  case (3 d scope argument props)
  from "3.prems" obtain exprs a u zs where
    f: "flattenExpressions d scope argument = Some exprs" and
    s: "iterateShapes d scope exprs = Some (a, u)" and
    p: "iterateProperties (Suc d) scope props = Some zs" and
    y: "ys = a @ (if u then [SpreadElement argument] else []) @ zs"
    by (auto split: option.splits prod.splits)
  have f': "flattenExpressions (Suc d) scope argument = Some exprs"
    using f by (rule flattenExpressions_Suc)
  have s': "iterateShapes (Suc d) scope exprs = Some (a, u)"
    using "3.IH"(1)[OF f s] .
  have p': "iterateProperties (Suc (Suc d)) scope props = Some zs"
    using "3.IH"(2)[OF f _ _ p] s by simp
  show ?case using f' s' p' y by simp
next
  case (4 d scope key name val props)
  then show ?case by (auto split: option.splits)
next
  case (5 d scope key name val props)
  then show ?case by (auto split: option.splits)
next
  case (7 d scope ps exprs)
  from "7.prems" obtain a zs u where
    p: "iterateProperties d scope ps = Some a" and
    s: "iterateShapes d scope exprs = Some (zs, u)" and
    y: "yu = (a @ zs, u)"
    by (auto split: option.splits prod.splits)
  show ?case using "7.IH"(1)[OF p] "7.IH"(2)[OF p s] y by simp
qed (auto split: option.splits prod.splits)


lemma iterateProperties_mono:
  assumes "iterateProperties d scope props = Some ys" and "d \<le> d'"
  shows "iterateProperties d' scope props = Some ys"
  using assms(2,1) by (induction rule: dec_induct) (auto intro: iterate_Suc)

lemma iterateShapes_mono:
  assumes "iterateShapes d scope shapes = Some yu" and "d \<le> d'"
  shows "iterateShapes d' scope shapes = Some yu"
  using assms(2,1) by (induction rule: dec_induct) (auto intro: iterate_Suc)

lemma flattenExpressions_unfollowed:
  "\<not> followed scope ex \<Longrightarrow> flattenExpressions (Suc d) scope ex = Some [ex]"
  by (cases ex) auto

lemma flattenExpressions_flattening:
  "flattenExpressions d scope ex = Some ys \<Longrightarrow> flattening scope ex ys"
proof (induction d scope ex arbitrary: ys rule: flattenExpressions.induct)
  case (1 scope node)
  then show ?case by simp
next
  case (2 d scope i x)
  show ?case
  proof (cases "constInit (scope (i, x))")
    case None
    with "2.prems" have "ys = [Identifier i x]" by simp
    moreover have "\<not> followed scope (Identifier i x)" using None by simp
    ultimately show ?thesis by (simp add: flattening.itself)
  next
    case (Some init)
    with "2.prems" have "flattenExpressions d scope init = Some ys" by simp
    then have "flattening scope init ys" using "2.IH" Some by simp
    then show ?thesis using Some by (rule flattening.initializer[rotated])
  qed
next
  case (3 d scope test consequent alternate)
  from "3.prems" obtain xs zs where
    c: "flattenExpressions d scope consequent = Some xs" and
    a: "flattenExpressions d scope alternate = Some zs" and
    y: "ys = xs @ zs"
    by (auto split: option.splits)
  show ?case unfolding y
    using "3.IH"(1)[OF c] "3.IH"(2)[OF c a] by (rule flattening.branches)
qed (auto intro: flattening.itself)

lemma flattening_flattenExpressions:
  "flattening scope ex ys \<Longrightarrow> \<exists>d. flattenExpressions d scope ex = Some ys"
proof (induction rule: flattening.induct)
  case (initializer i x init ys)
  then obtain d where "flattenExpressions d scope init = Some ys" by blast
  then have "flattenExpressions (Suc d) scope (Identifier i x) = Some ys"
    using initializer.hyps by simp
  then show ?case by blast
next
  case (branches consequent xs alternate ys test)
  then obtain d1 d2 where
    "flattenExpressions d1 scope consequent = Some xs"
    "flattenExpressions d2 scope alternate = Some ys" by blast
  then have "flattenExpressions (max d1 d2) scope consequent = Some xs"
    "flattenExpressions (max d1 d2) scope alternate = Some ys"
    by (auto intro: flattenExpressions_mono)
  then have "flattenExpressions (Suc (max d1 d2)) scope
      (ConditionalExpression test consequent alternate) = Some (xs @ ys)" by simp
  then show ?case by blast
next
  case (itself ex)
  then have "flattenExpressions (Suc 0) scope ex = Some [ex]"
    by (rule flattenExpressions_unfollowed)
  then show ?case by blast
qed

lemma flattening_unique:
  assumes "flattening scope ex ys" and "flattening scope ex zs"
  shows "ys = zs"
proof -
  obtain d1 d2 where "flattenExpressions d1 scope ex = Some ys"
    "flattenExpressions d2 scope ex = Some zs"
    using assms by (blast dest: flattening_flattenExpressions)
  then have "flattenExpressions (max d1 d2) scope ex = Some ys"
    "flattenExpressions (max d1 d2) scope ex = Some zs"
    by (auto intro: flattenExpressions_mono)
  then show ?thesis by simp
qed

lemma iterate_walk:
  "iterateProperties d scope props = Some ys \<Longrightarrow> walk scope props ys"
  "iterateShapes d scope shapes = Some yu \<Longrightarrow>
     walkShapes scope shapes (fst yu) \<and> snd yu = (\<not> list_all isObjectExpression shapes)"
proof (induction d scope props and d scope shapes arbitrary: ys and yu rule: iterateProperties_iterateShapes.induct)
  case (1 scope props)
  then show ?case by simp
next
  case (2 d scope)
  then show ?case by (simp add: walk_walkShapes.no_property)
next
  case (3 d scope argument props)
  from "3.prems" obtain exprs a u zs where
    f: "flattenExpressions d scope argument = Some exprs" and
    s: "iterateShapes d scope exprs = Some (a, u)" and
    p: "iterateProperties (Suc d) scope props = Some zs" and
    y: "ys = a @ (if u then [SpreadElement argument] else []) @ zs"
    by (auto split: option.splits prod.splits)
  have 1: "flattening scope argument exprs" using f by (rule flattenExpressions_flattening)
  have 2: "walkShapes scope exprs a" and u: "u = (\<not> list_all isObjectExpression exprs)"
    using "3.IH"(1)[OF f s] by simp_all
  have 3: "walk scope props zs" using "3.IH"(2)[OF f _ _ p] s by simp
  show ?case using walk_walkShapes.spread[OF 1 2 3] y u by (cases u) simp_all
next
  case (4 d scope key name val props)
  then show ?case by (auto split: option.splits intro: walk_walkShapes.ordinary)
next
  case (5 d scope key name val props)
  then show ?case by (auto split: option.splits intro: walk_walkShapes.ordinary)
next
  case (6 d scope)
  then show ?case by (auto intro: walk_walkShapes.no_shape)
next
  case (7 d scope ps exprs)
  from "7.prems" obtain a zs u where
    p: "iterateProperties d scope ps = Some a" and
    s: "iterateShapes d scope exprs = Some (zs, u)" and
    y: "yu = (a @ zs, u)"
    by (auto split: option.splits prod.splits)
  show ?case using "7.IH"(1)[OF p] "7.IH"(2)[OF p s] y
    by (auto intro: walk_walkShapes.object_shape)
qed (auto split: option.splits prod.splits intro: walk_walkShapes.opaque_shape)

lemma walk_iterate:
  "walk scope props ys \<Longrightarrow> \<exists>d. iterateProperties d scope props = Some ys"
  "walkShapes scope shapes ys \<Longrightarrow>
     \<exists>d. iterateShapes d scope shapes = Some (ys, \<not> list_all isObjectExpression shapes)"
proof (induction rule: walk_walkShapes.inducts)
  case no_property
  have "iterateProperties (Suc 0) scope [] = Some []" by simp
  then show ?case by blast
next
  case (ordinary el props zs)
  then obtain d where d: "iterateProperties d scope props = Some zs" by blast
  then have "d \<noteq> 0" by (cases d) auto
  then obtain d' where "d = Suc d'" by (cases d) auto
  with d ordinary have "iterateProperties d scope (el # props) = Some (el # zs)"
    by (cases el) auto
  then show ?case by blast
next
  case (spread argument shapes ys props zs)
  obtain d1 where 1: "flattenExpressions d1 scope argument = Some shapes"
    using spread by (blast dest: flattening_flattenExpressions)
  obtain d2 where 2: "iterateShapes d2 scope shapes = Some (ys, \<not> list_all isObjectExpression shapes)"
    using spread by blast
  obtain d3 where 3: "iterateProperties d3 scope props = Some zs"
    using spread by blast
  define d where "d = max d1 (max d2 d3)"
  have "flattenExpressions d scope argument = Some shapes"
    "iterateShapes d scope shapes = Some (ys, \<not> list_all isObjectExpression shapes)"
    "iterateProperties (Suc d) scope props = Some zs"
    using 1 2 3 unfolding d_def
    by (auto intro: flattenExpressions_mono iterateShapes_mono iterateProperties_mono)
  then have "iterateProperties (Suc d) scope (SpreadElement argument # props) =
      Some (ys @ (if list_all isObjectExpression shapes then [] else [SpreadElement argument]) @ zs)"
    by simp
  then show ?case by blast
next
  case no_shape
  show ?case by simp
next
  case (object_shape ps ys shapes zs)
  then obtain d1 d2 where 1: "iterateProperties d1 scope ps = Some ys"
    and 2: "iterateShapes d2 scope shapes = Some (zs, \<not> list_all isObjectExpression shapes)"
    by blast
  have "iterateProperties (max d1 d2) scope ps = Some ys"
    "iterateShapes (max d1 d2) scope shapes = Some (zs, \<not> list_all isObjectExpression shapes)"
    using 1 2 by (auto intro: iterateShapes_mono iterateProperties_mono)
  then have "iterateShapes (max d1 d2) scope (ObjectExpression ps # shapes) =
      Some (ys @ zs, \<not> list_all isObjectExpression (ObjectExpression ps # shapes))" by simp
  then show ?case by blast
next
  case (opaque_shape ex shapes zs)
  then obtain d where "iterateShapes d scope shapes = Some (zs, \<not> list_all isObjectExpression shapes)"
    by blast
  with opaque_shape have "iterateShapes d scope (ex # shapes) =
      Some (zs, \<not> list_all isObjectExpression (ex # shapes))"
    by (cases ex) auto
  then show ?case by blast
qed

section \<open>Termination of the generators\<close>

lemma selfScope_diverges: "flattenExpressions d selfScope (Identifier i ''a'') = None"
  by (induction d arbitrary: i) (simp_all add: selfScope_def declared_def constInit_def constDef_def)

lemma iterateShapes_append:
  "iterateShapes d scope xs = Some (a, u) \<Longrightarrow> iterateShapes d scope ys = Some (b, v) \<Longrightarrow>
   iterateShapes d scope (xs @ ys) = Some (a @ b, u \<or> v)"
proof (induction xs arbitrary: a u)
  case Nil
  then show ?case by simp
next
  case (Cons x xs)
  show ?case
  proof (cases "isObjectExpression x")
    case True
    then obtain ps where x: "x = ObjectExpression ps" by (cases x) auto
    from Cons.prems(1) obtain a1 a2 where
      "iterateProperties d scope ps = Some a1" "iterateShapes d scope xs = Some (a2, u)" "a = a1 @ a2"
      unfolding x by (auto split: option.splits prod.splits)
    then show ?thesis using Cons.IH[OF _ Cons.prems(2)] x by simp
  next
    case False
    from Cons.prems(1) False obtain u' where
      "iterateShapes d scope xs = Some (a, u')" "u = True"
      by (cases x) (auto split: option.splits prod.splits)
    then show ?thesis using Cons.IH[OF _ Cons.prems(2)] False by (cases x) auto
  qed
qed

lemma iterateProperties_Cons:
  assumes "iterateProperties d scope [el] = Some a" and "iterateProperties d scope els = Some b"
  shows "iterateProperties d scope (el # els) = Some (a @ b)"
proof -
  obtain d' where d: "d = Suc d'" using assms(1) by (cases d) auto
  show ?thesis using assms unfolding d
    by (cases el) (auto split: option.splits prod.splits)
qed

lemma settles_each:
  assumes "\<forall>el \<in> set els. \<exists>d ys. iterateProperties d scope [el] = Some ys"
  shows "\<exists>d ys. iterateProperties d scope els = Some ys"
  using assms
proof (induction els)
  case Nil
  have "iterateProperties (Suc 0) scope [] = Some []" by simp
  then show ?case by blast
next
  case (Cons el els)
  then obtain d1 d2 a b where "iterateProperties d1 scope [el] = Some a"
    "iterateProperties d2 scope els = Some b" by auto
  then have "iterateProperties (max d1 d2) scope [el] = Some a"
    "iterateProperties (max d1 d2) scope els = Some b"
    by (auto intro: iterateProperties_mono)
  then have "iterateProperties (max d1 d2) scope (el # els) = Some (a @ b)"
    by (rule iterateProperties_Cons)
  then show ?case by blast
qed

lemma settles_plain:
  assumes "\<not> followed scope ex" and "\<not> isObjectExpression ex"
  shows "settles scope ex"
proof -
  have "flattenExpressions (Suc 0) scope ex = Some [ex]"
    using assms(1) by (rule flattenExpressions_unfollowed)
  moreover have "iterateShapes (Suc 0) scope [ex] = Some ([], True)"
    using assms(2) by (cases ex) simp_all
  ultimately show ?thesis unfolding settles_def by blast
qed

lemma settles_below:
  assumes outer: "\<And>x init. constInit (scope x) = Some init \<Longrightarrow> rank x < k \<Longrightarrow> settles scope init"
  shows "(\<forall>y \<in> set (followedIdentifiers ex). rank y < k) \<longrightarrow> settles scope ex"
    and "(\<forall>y \<in> set (followedIdentifiersOf el). rank y < k) \<longrightarrow>
           (\<exists>d ys. iterateProperties d scope [el] = Some ys)"
proof (induction ex and el)
  case (Identifier i x)
  show ?case
  proof
    assume "\<forall>y \<in> set (followedIdentifiers (Identifier i x)). rank y < k"
    then have r: "rank (i, x) < k" by simp
    show "settles scope (Identifier i x)"
    proof (cases "constInit (scope (i, x))")
      case None
      then show ?thesis by (simp add: settles_plain)
    next
      case (Some init)
      from outer[OF Some r] obtain d shapes yu where
        f: "flattenExpressions d scope init = Some shapes" and
        s: "iterateShapes d scope shapes = Some yu" unfolding settles_def by blast
      have "flattenExpressions (Suc d) scope (Identifier i x) = Some shapes"
        using f Some by simp
      moreover have "iterateShapes (Suc d) scope shapes = Some yu"
        using s by (rule iterate_Suc)
      ultimately show ?thesis unfolding settles_def by blast
    qed
  qed
next
  case (ConditionalExpression t c a)
  show ?case
  proof
    assume h: "\<forall>y \<in> set (followedIdentifiers (ConditionalExpression t c a)). rank y < k"
    then have "settles scope c" "settles scope a"
      using ConditionalExpression.IH by auto
    then obtain d1 xs yu1 d2 ys yu2 where
      "flattenExpressions d1 scope c = Some xs" "iterateShapes d1 scope xs = Some yu1"
      "flattenExpressions d2 scope a = Some ys" "iterateShapes d2 scope ys = Some yu2"
      unfolding settles_def by blast
    then have m: "flattenExpressions (max d1 d2) scope c = Some xs"
      "iterateShapes (Suc (max d1 d2)) scope xs = Some (fst yu1, snd yu1)"
      "flattenExpressions (max d1 d2) scope a = Some ys"
      "iterateShapes (Suc (max d1 d2)) scope ys = Some (fst yu2, snd yu2)"
      by (auto intro: flattenExpressions_mono iterateShapes_mono)
    have "flattenExpressions (Suc (max d1 d2)) scope (ConditionalExpression t c a) = Some (xs @ ys)"
      using m by simp
    moreover have "iterateShapes (Suc (max d1 d2)) scope (xs @ ys) =
        Some (fst yu1 @ fst yu2, snd yu1 \<or> snd yu2)"
      using m(2,4) by (rule iterateShapes_append)
    ultimately show "settles scope (ConditionalExpression t c a)"
      unfolding settles_def by blast
  qed
next
  case (ObjectExpression props)
  show ?case
  proof
    assume h: "\<forall>y \<in> set (followedIdentifiers (ObjectExpression props)). rank y < k"
    have "\<forall>el \<in> set props. \<exists>d ys. iterateProperties d scope [el] = Some ys"
      using ObjectExpression.IH h by auto
    then have "\<exists>d ys. iterateProperties d scope props = Some ys"
      by (rule settles_each)
    then obtain d ys where "iterateProperties d scope props = Some ys" by blast
    then have "flattenExpressions (Suc d) scope (ObjectExpression props) = Some [ObjectExpression props]"
      "iterateShapes (Suc d) scope [ObjectExpression props] = Some (ys, False)"
      by (auto dest: iterate_Suc(1))
    then show "settles scope (ObjectExpression props)" unfolding settles_def by blast
  qed
next
  case (SpreadElement argument)
  show ?case
  proof
    assume "\<forall>y \<in> set (followedIdentifiersOf (SpreadElement argument)). rank y < k"
    then have "settles scope argument" using SpreadElement.IH by simp
    then obtain d shapes yu where "flattenExpressions d scope argument = Some shapes"
      "iterateShapes d scope shapes = Some yu" unfolding settles_def by blast
    then have "iterateProperties (Suc d) scope [SpreadElement argument] =
        Some (fst yu @ (if snd yu then [SpreadElement argument] else []) @ [])"
      by (cases yu) simp
    then show "\<exists>d ys. iterateProperties d scope [SpreadElement argument] = Some ys" by blast
  qed
next
  case (Property key name val)
  have "iterateProperties (Suc 0) scope [Property key name val] = Some [Property key name val]"
    by simp
  then show ?case by blast
next
  case (MethodDefinition key name val)
  have "iterateProperties (Suc 0) scope [MethodDefinition key name val] =
      Some [MethodDefinition key name val]"
    by simp
  then show ?case by blast
qed (simp_all add: settles_plain)

lemma ranked_settles:
  assumes "ranked rank scope"
  shows "(\<forall>y \<in> set (followedIdentifiers ex). rank y < k) \<Longrightarrow> settles scope ex"
proof (induction k arbitrary: ex rule: less_induct)
  case (less k)
  have "\<And>x init. constInit (scope x) = Some init \<Longrightarrow> rank x < k \<Longrightarrow> settles scope init"
  proof -
    fix x init assume c: "constInit (scope x) = Some init" and r: "rank x < k"
    have "\<forall>y \<in> set (followedIdentifiers init). rank y < rank x"
      using assms c unfolding ranked_def by blast
    then show "settles scope init" using r by (rule less.IH[rotated])
  qed
  then have "(\<forall>y \<in> set (followedIdentifiers ex). rank y < k) \<longrightarrow> settles scope ex"
    by (rule settles_below(1))
  then show ?case using less.prems by simp
qed

lemma rank_bound: "\<forall>y \<in> set xs. (rank y :: nat) < Suc (sum_list (map rank xs))"
  by (induction xs) auto

lemma ranked_settles_all:
  assumes "ranked rank scope"
  shows "settles scope ex"
  using assms rank_bound by (rule ranked_settles)

lemma chain_ranked: "ranked chainRank chainScope"
  unfolding ranked_def
proof (intro allI impI)
  fix x init
  assume c: "constInit (chainScope x) = Some init"
  consider "snd x = ''chosen''" | "snd x = ''base''" | "snd x \<noteq> ''chosen''" "snd x \<noteq> ''base''"
    by blast
  then show "\<forall>y \<in> set (followedIdentifiers init). chainRank y < chainRank x"
  proof cases
    case 1
    with c have "init = conditionalExample"
      by (simp add: chainScope_def declared_def constInit_def constDef_def)
    then show ?thesis using 1 by (simp add: conditionalExample_def chainRank_def)
  next
    case 2
    with c have "init = ObjectExpression [fixProperty]"
      by (simp add: chainScope_def baseScope_def declared_def constInit_def constDef_def)
    then show ?thesis by (simp add: fixProperty_def)
  next
    case 3
    with c show ?thesis
      by (simp add: chainScope_def baseScope_def declared_def constInit_def noScope_def)
  qed
qed

section \<open>The handlers\<close>

lemma declaredProp_Nil: "declaredProp name [] = None"
  by (simp add: declaredProp_def)

lemma declaredProp_snoc:
  "declaredProp name (props @ [el]) =
     (if isProperty el \<and> getPropertyName el = Some name then Some el else declaredProp name props)"
  by (simp add: declaredProp_def)


lemma fold_metaCreateStep:
  "fold metaCreateStep props (None, None) = (declaredProp ''meta'' props, declaredProp ''create'' props)"
proof (induction props rule: rev_induct)
  case Nil
  then show ?case by (simp add: declaredProp_Nil)
next
  case (snoc el props)
  then show ?case by (cases el) (simp_all add: declaredProp_snoc)
qed

lemma find_holds: "find P xs = Some x \<Longrightarrow> P x"
  by (induction xs) (auto split: if_splits)

lemma declaredProp_isProperty:
  assumes "declaredProp name props = Some p"
  shows "\<exists>key val. p = Property key (Some name) val"
proof -
  have "isProperty p \<and> getPropertyName p = Some name"
    using assms unfolding declaredProp_def by (rule find_holds)
  then show ?thesis by (cases p) auto
qed

lemma visit_ObjectExpression_ruleShape:
  "visit_ObjectExpression None props =
     (case ruleShape props of
        Some (m, c) \<Rightarrow> Some \<lparr>meta = m, context' = c, report = emptyFindings\<rparr>
      | None \<Rightarrow> None)"
proof (cases "declaredProp ''meta'' props")
  case None
  then show ?thesis
    by (simp add: visit_ObjectExpression_def ruleShape_def fold_metaCreateStep)
next
  case m: (Some m)
  then obtain mkey mval where mp: "m = Property mkey (Some ''meta'') mval"
    by (blast dest: declaredProp_isProperty)
  show ?thesis
  proof (cases "declaredProp ''create'' props")
    case None
    then show ?thesis using m mp
      by (simp add: visit_ObjectExpression_def ruleShape_def fold_metaCreateStep
          split: expr.splits)
  next
    case c: (Some c)
    then obtain ckey cval where cp: "c = Property ckey (Some ''create'') cval"
      by (blast dest: declaredProp_isProperty)
    show ?thesis using m mp c cp
      by (simp add: visit_ObjectExpression_def ruleShape_def fold_metaCreateStep emptyFindings_def
          split: expr.splits option.splits list.splits)
  qed
qed

lemma visit_ObjectExpression_Some: "visit_ObjectExpression (Some r) props = Some r"
  by (simp add: visit_ObjectExpression_def)


lemma fold_collectStep_found: "found (fold collectStep props rep) = found rep"
proof (induction props arbitrary: rep)
  case Nil
  then show ?case by simp
next
  case (Cons el props)
  then show ?case by (cases el) simp_all
qed

lemma visit_CallExpression_None:
  "visit_CallExpression depth scope None callee arguments = Some None"
  by (simp add: visit_CallExpression_def)

lemma visit_CallExpression_cases:
  assumes "visit_CallExpression depth scope (Some r) callee arguments = Some st"
  shows "st = Some r \<or>
    (\<exists>r'. st = Some r' \<and> meta r' = meta r \<and> context' r' = context' r \<and> found (report r') \<and>
       isReportMember callee \<and> length arguments = 1 \<and> bindsContext scope (context' r) callee)"
proof (cases "\<not> isReportMember callee \<or> length arguments \<noteq> 1 \<or>
    \<not> bindsContext scope (context' r) callee")
  case True
  then have "visit_CallExpression depth scope (Some r) callee arguments = Some (Some r)"
    unfolding visit_CallExpression_def by auto
  then show ?thesis using assms by simp
next
  case False
  then have g: "isReportMember callee" "length arguments = 1"
    "bindsContext scope (context' r) callee" by auto
  from g(2) obtain a where a: "arguments = [a]" by (cases arguments) auto
  show ?thesis
  proof (cases a)
    case (ObjectExpression descriptor)
    then show ?thesis using assms g a
      by (auto simp: visit_CallExpression_def fold_collectStep_found split: option.splits)
  qed (use assms g a in \<open>auto simp: visit_CallExpression_def\<close>)
qed

lemma traverse_append:
  "traverse depth st (xs @ ys) =
     (case traverse depth st xs of None \<Rightarrow> None | Some st' \<Rightarrow> traverse depth st' ys)"
proof (induction xs arbitrary: st)
  case Nil
  then show ?case by simp
next
  case (Cons e xs)
  then show ?case by (cases e) (simp_all split: option.splits)
qed

lemma traverse_keeps:
  "traverse depth (Some r) events = Some st \<Longrightarrow>
     \<exists>r'. st = Some r' \<and> meta r' = meta r \<and> context' r' = context' r"
proof (induction events arbitrary: r)
  case Nil
  then show ?case by auto
next
  case (Cons e events)
  show ?case
  proof (cases e)
    case (ObjectExpressionNode props)
    then show ?thesis using Cons by (simp add: visit_ObjectExpression_Some)
  next
    case (CallExpressionNode scope callee arguments)
    with Cons.prems obtain st1 where
      v: "visit_CallExpression depth scope (Some r) callee arguments = Some st1" and
      t: "traverse depth st1 events = Some st"
      by (auto split: option.splits)
    from visit_CallExpression_cases[OF v] obtain r1 where
      r1: "st1 = Some r1" "meta r1 = meta r" "context' r1 = context' r" by auto
    from Cons.IH[OF t[unfolded r1(1)]] r1 show ?thesis by auto
  qed
qed

lemma traverse_unmatched:
  assumes "\<forall>props. ObjectExpressionNode props \<in> set events \<longrightarrow> ruleShape props = None"
  shows "traverse depth None events = Some None"
  using assms
proof (induction events)
  case Nil
  then show ?case by simp
next
  case (Cons e events)
  then show ?case
    by (cases e) (simp_all add: visit_ObjectExpression_ruleShape visit_CallExpression_None)
qed

lemmas example_defs = noScope_def contextParam_def createScope_def declared_def
  ruleProperties_def ruleNode_def reportCallee_def reportCall_def nodeProperty_def
  fixProperty_def suggestProperty_def fixableCode_def constDef_def ruleObjectOf_def
  emptyFindings_def














lemma flattening_nonempty: "flattening scope ex ys \<Longrightarrow> ys \<noteq> []"
  by (induction rule: flattening.induct) auto

lemma iterateShapes_opaque:
  assumes "\<forall>s \<in> set shapes. \<not> isObjectExpression s"
  shows "iterateShapes d scope shapes = Some ([], shapes \<noteq> [])"
  using assms
proof (induction shapes)
  case Nil
  then show ?case by simp
next
  case (Cons s shapes)
  then show ?case by (cases s) auto
qed

lemma unresolved_spread_walk:
  assumes "iterateProperties depth scope [SpreadElement argument] = Some props"
    and "flattening scope argument shapes"
    and "\<forall>s \<in> set shapes. \<not> isObjectExpression s"
  shows "props = [SpreadElement argument]"
proof -
  obtain d where d: "depth = Suc d" using assms(1) by (cases depth) auto
  from assms(1) obtain shapes' where
    f: "flattenExpressions d scope argument = Some shapes'"
    unfolding d by (auto split: option.splits)
  have "shapes' = shapes"
    using flattenExpressions_flattening[OF f] assms(2) by (rule flattening_unique)
  then have "iterateShapes d scope shapes' = Some ([], True)"
    using iterateShapes_opaque[OF assms(3)] flattening_nonempty[OF assms(2)] by simp
  then show ?thesis using assms(1) f unfolding d by simp
qed

lemma visit_CallExpression_arity:
  "length arguments \<noteq> 1 \<Longrightarrow>
     visit_CallExpression depth scope ruleObject callee arguments = Some ruleObject"
  by (cases ruleObject) (simp_all add: visit_CallExpression_def)

lemma visit_CallExpression_unbound:
  "\<not> (isReportMember callee \<and> bindsContext scope (context' r) callee) \<Longrightarrow>
     visit_CallExpression depth scope (Some r) callee arguments = Some (Some r)"
  by (auto simp: visit_CallExpression_def)

lemma traverse_ignored:
  assumes "\<forall>scope callee arguments. CallExpressionNode scope callee arguments \<in> set events \<longrightarrow>
      isReportMember callee \<longrightarrow> bindsContext scope (context' r) callee \<longrightarrow>
      length arguments \<noteq> 1"
  shows "traverse depth (Some r) events = Some (Some r)"
  using assms
proof (induction events)
  case Nil
  then show ?case by simp
next
  case (Cons e events)
  have rest: "traverse depth (Some r) events = Some (Some r)"
    using Cons by auto
  show ?case
  proof (cases e)
    case (ObjectExpressionNode props)
    then show ?thesis using rest by (simp add: visit_ObjectExpression_Some)
  next
    case (CallExpressionNode scope callee arguments)
    have "visit_CallExpression depth scope (Some r) callee arguments = Some (Some r)"
    proof (cases "isReportMember callee \<and> bindsContext scope (context' r) callee")
      case True
      then have "length arguments \<noteq> 1"
        using Cons.prems CallExpressionNode by auto
      then show ?thesis by (rule visit_CallExpression_arity)
    next
      case False
      then show ?thesis by (rule visit_CallExpression_unbound)
    qed
    then show ?thesis using rest CallExpressionNode by simp
  qed
qed




text \<open>
  With a string literal as source the checks do run: the restricted path \<open>fs\<close> is
  reported for \<open>export * from ' fs '\<close>, and the generator's exception comes through.
\<close>

lemma verify_reports_restricted_path:
  "verify [fsPath] [] fsExport ''value'' (Some [(''*'', 7)]) =
     Some [\<lparr>import_node = fsExport, import_messageId = ''path'', import_loc = None,
            importSource = ''fs'', importNames = None, importName = None,
            importKindPhrase = ''type-only import and import'', customMessage = None\<rparr>]"
  "no_restricted_imports [fsPath] [] (ExportAllDeclaration fsExport ''value'' None) = None"
  by (simp_all add: no_restricted_imports_def verify_def fsPath_def fsExport_def trim_def
      isWhiteSpace_def kindMatches_def report_import_def importKindPhraseOf_def)

section \<open>Properties of the generators\<close>

text \<open>
  C6. \<open>flattenExpressions\<close> yields what the specification says: for an identifier bound
  by exactly one \<open>const\<close> declaration with an initializer, the flattening of that
  initializer; for a conditional expression, the flattening of the consequent followed
  by that of the alternate; for any other node, the node itself, once. The sequence
  \<open>ys\<close> is yielded (on a stack that is deep enough) exactly when it is the flattening
  in the specification's sense.
\<close>

theorem flattenExpressions_yields_flattening:
  "(\<exists>d. flattenExpressions d scope ex = Some ys) = flattening scope ex ys"
  using flattenExpressions_flattening flattening_flattenExpressions by blast

theorem flattenExpressions_yields_flattening_witness:
  "flattening baseScope conditionalExample [ObjectExpression [fixProperty], Identifier 61 ''other'']"
proof -
  have "flattenExpressions (Suc (Suc (Suc 0))) baseScope conditionalExample =
      Some [ObjectExpression [fixProperty], Identifier 61 ''other'']"
    by (simp add: baseScope_def declared_def conditionalExample_def noScope_def constInit_def
        constDef_def)
  then show ?thesis
    using flattenExpressions_yields_flattening
      [of baseScope conditionalExample "[ObjectExpression [fixProperty], Identifier 61 ''other'']"]
    by blast
qed

text \<open>
  C7. \<open>iterateProperties\<close> yields what the specification says: a property or a method
  is yielded as it is; for a spread element, every object expression in the flattening
  of its argument is walked in turn and its properties are yielded, and the spread
  element itself is yielded once after them exactly when some shape of the flattening
  is not an object expression. The sequence \<open>ys\<close> is yielded (on a stack that is deep
  enough) exactly when it is the walk in the specification's sense.
\<close>

theorem iterateProperties_yields_walk:
  "(\<exists>d. iterateProperties d scope props = Some ys) = walk scope props ys"
  using iterate_walk(1) walk_iterate(1) by blast

theorem iterateProperties_yields_walk_witness:
  "walk baseScope [nodeProperty, SpreadElement conditionalExample]
     [nodeProperty, fixProperty, SpreadElement conditionalExample]"
proof -
  have "iterateProperties (Suc (Suc (Suc (Suc 0)))) baseScope
      [nodeProperty, SpreadElement conditionalExample] =
      Some [nodeProperty, fixProperty, SpreadElement conditionalExample]"
    by (simp add: baseScope_def declared_def conditionalExample_def noScope_def constInit_def
        constDef_def nodeProperty_def fixProperty_def)
  then show ?thesis
    using iterateProperties_yields_walk
      [of baseScope "[nodeProperty, SpreadElement conditionalExample]"
          "[nodeProperty, fixProperty, SpreadElement conditionalExample]"]
    by blast
qed

text \<open>
  C4, as the code has it. The generators have no cycle guard, and a resolution chain can
  revisit a binding: with \<open>const a = a;\<close> neither the flattening of \<open>a\<close> nor the walk of
  \<open>{ ...a }\<close> returns, on any stack, however deep.
\<close>

theorem flattenExpressions_cycle_counterexample:
  "\<not> (\<exists>d ys. flattenExpressions d selfScope (Identifier 10 ''a'') = Some ys) \<and>
   \<not> (\<exists>d ys. iterateProperties d selfScope [SpreadElement (Identifier 10 ''a'')] = Some ys)"
proof -
  have "iterateProperties d selfScope [SpreadElement (Identifier 10 ''a'')] = None" for d
    by (cases d) (simp_all add: selfScope_diverges)
  then show ?thesis by (simp add: selfScope_diverges)
qed

text \<open>
  C4, amended. When no chain of resolutions revisits a binding (the identifiers followed
  from a \<open>const\<close> initializer have a smaller rank than the identifier it resolves), the
  flattening of every expression and the walk of every object literal return on a
  stack that is deep enough, and what they yield does not depend on the stack.
\<close>

theorem ranked_terminates:
  assumes "ranked rank scope"
  shows "(\<exists>ys. (\<exists>d. flattenExpressions d scope ex = Some ys) \<and>
            (\<forall>d zs. flattenExpressions d scope ex = Some zs \<longrightarrow> zs = ys)) \<and>
         (\<exists>ys. (\<exists>d. iterateProperties d scope props = Some ys) \<and>
            (\<forall>d zs. iterateProperties d scope props = Some zs \<longrightarrow> zs = ys))"
proof
  obtain d ys where f: "flattenExpressions d scope ex = Some ys"
    using ranked_settles_all[OF assms, of ex] unfolding settles_def by blast
  have "zs = ys" if "flattenExpressions d' scope ex = Some zs" for d' zs
  proof -
    have "flattenExpressions (max d d') scope ex = Some ys"
      "flattenExpressions (max d d') scope ex = Some zs"
      using f that by (auto intro: flattenExpressions_mono)
    then show ?thesis by simp
  qed
  with f show "\<exists>ys. (\<exists>d. flattenExpressions d scope ex = Some ys) \<and>
      (\<forall>d zs. flattenExpressions d scope ex = Some zs \<longrightarrow> zs = ys)" by blast
next
  have "settles scope (ObjectExpression props)" using assms by (rule ranked_settles_all)
  then obtain d shapes yu where f: "flattenExpressions d scope (ObjectExpression props) = Some shapes"
    and s: "iterateShapes d scope shapes = Some yu"
    unfolding settles_def by blast
  from f have "shapes = [ObjectExpression props]" by (cases d) auto
  with s obtain ys where p: "iterateProperties d scope props = Some ys"
    by (auto split: option.splits)
  have "zs = ys" if "iterateProperties d' scope props = Some zs" for d' zs
  proof -
    have "iterateProperties (max d d') scope props = Some ys"
      "iterateProperties (max d d') scope props = Some zs"
      using p that by (auto intro: iterateProperties_mono)
    then show ?thesis by simp
  qed
  with p show "\<exists>ys. (\<exists>d. iterateProperties d scope props = Some ys) \<and>
      (\<forall>d zs. iterateProperties d scope props = Some zs \<longrightarrow> zs = ys)" by blast
qed

theorem ranked_terminates_witness:
  "ranked chainRank chainScope \<and>
   (\<exists>d ys. flattenExpressions d chainScope (Identifier 70 ''chosen'') = Some ys) \<and>
   (\<exists>d ys. iterateProperties d chainScope [SpreadElement (Identifier 70 ''chosen'')] = Some ys)"
  using chain_ranked
    ranked_terminates [OF chain_ranked, of "Identifier 70 ''chosen''"
      "[SpreadElement (Identifier 70 ''chosen'')]"]
  by blast

section \<open>Properties of the checker\<close>










text \<open>
  C5, as the code has it. A spread in \<open>meta\<close> whose argument resolves to an object
  literal is walked like that literal: with \<open>const ruleMeta = { fixable: 'code' }\<close>,
  \<open>meta: { ...ruleMeta }\<close> and a report call without \<open>fix\<close>, \<open>Program:exit\<close> reports
  \<open>shouldNotBeFixable\<close>.
\<close>

theorem resolved_meta_spread_counterexample:
  "lint 3 [ruleNode [ruleMetaSpread], reportCall [nodeProperty]] ruleMetaScope =
     Some [context_report (PropertyNode fixableCode) shouldNotBeFixable]"
  by (simp add: example_defs ruleMetaSpread_def ruleMetaScope_def lint_def visit_ObjectExpression_def visit_CallExpression_def
      visit_Program_exit_def checkFixable_def checkSuggestable_def reports_def constInit_def
      numeral_3_eq_3)

text \<open>
  C5, amended. When \<open>meta\<close> is a single spread element and no shape in the flattening
  of its argument is an object expression, the checker reports nothing, whatever was
  recorded at the report sites.
\<close>

theorem unresolved_meta_spread_silent:
  assumes "traverse depth None events = Some (Some r)"
    and "meta r = [SpreadElement argument]"
    and "iterateProperties depth exitScope (meta r) = Some props"
    and "flattening exitScope argument shapes"
    and "\<forall>s \<in> set shapes. \<not> isObjectExpression s"
  shows "lint depth events exitScope = Some []"
proof -
  have p: "props = [SpreadElement argument]"
    using assms(3)[unfolded assms(2)] assms(4,5) by (rule unresolved_spread_walk)
  have "visit_Program_exit depth exitScope (Some r) = Some []"
  proof (cases "found (report r)")
    case False
    then show ?thesis by (simp add: visit_Program_exit_def)
  next
    case True
    then show ?thesis using assms(3) p
      by (simp add: visit_Program_exit_def checkFixable_def checkSuggestable_def)
  qed
  then show ?thesis using assms(1) by (simp add: lint_def)
qed

theorem unresolved_meta_spread_silent_witness:
  "lint 3 [ruleNode [ruleMetaSpread], reportCall [nodeProperty, fixProperty, suggestProperty]]
     noScope = Some []"
proof -
  let ?r = "ruleObjectOf [ruleMetaSpread]
      (emptyFindings\<lparr>suggestNodes := [Identifier 93 ''suggest''],
         fixNodes := [Identifier 83 ''fix''], found := True\<rparr>)"
  have 1: "traverse 3 None
      [ruleNode [ruleMetaSpread], reportCall [nodeProperty, fixProperty, suggestProperty]] =
      Some (Some ?r)"
    by (simp add: example_defs ruleMetaSpread_def ruleMetaScope_def visit_ObjectExpression_def visit_CallExpression_def numeral_3_eq_3)
  have 2: "meta ?r = [SpreadElement (Identifier 15 ''ruleMeta'')]"
    by (simp add: example_defs ruleMetaSpread_def ruleMetaScope_def)
  have 3: "iterateProperties 3 noScope (meta ?r) = Some [ruleMetaSpread]"
    by (simp add: example_defs ruleMetaSpread_def ruleMetaScope_def constInit_def numeral_3_eq_3)
  have 4: "flattening noScope (Identifier 15 ''ruleMeta'') [Identifier 15 ''ruleMeta'']"
    by (rule flattening.itself) (simp add: noScope_def constInit_def)
  have 5: "\<forall>s \<in> set [Identifier 15 ''ruleMeta'']. \<not> isObjectExpression s" by simp
  show ?thesis by (rule unresolved_meta_spread_silent [OF 1 2 3 4 5])
qed

text \<open>
  C8. An object expression visited when the rule object exists leaves it unchanged.
  In a traversal, the first object expression of the shape \<open>{meta, create}\<close> creates the
  rule object, and at the end of the traversal it still has the \<open>meta\<close> and the context
  parameter of that first object expression, whatever was visited after it. The rule
  object is read once, by \<open>Program:exit\<close>, after the traversal.
\<close>

theorem single_rule_object:
  "visit_ObjectExpression (Some r) properties = Some r \<and>
   ((\<forall>ps. ObjectExpressionNode ps \<in> set before \<longrightarrow> ruleShape ps = None) \<and>
    ruleShape props = Some (m, c) \<and>
    traverse depth None (before @ ObjectExpressionNode props # after) = Some st \<longrightarrow>
      (\<exists>r'. st = Some r' \<and> meta r' = m \<and> context' r' = c)) \<and>
   lint depth events exitScope =
     (case traverse depth None events of
        None \<Rightarrow> None
      | Some ruleObject \<Rightarrow> visit_Program_exit depth exitScope ruleObject)"
proof (intro conjI impI)
  show "visit_ObjectExpression (Some r) properties = Some r"
    by (rule visit_ObjectExpression_Some)
next
  assume a: "(\<forall>ps. ObjectExpressionNode ps \<in> set before \<longrightarrow> ruleShape ps = None) \<and>
    ruleShape props = Some (m, c) \<and>
    traverse depth None (before @ ObjectExpressionNode props # after) = Some st"
  then have a1: "\<forall>ps. ObjectExpressionNode ps \<in> set before \<longrightarrow> ruleShape ps = None"
    and a2: "ruleShape props = Some (m, c)"
    and a3: "traverse depth None (before @ ObjectExpressionNode props # after) = Some st"
    by simp_all
  have "traverse depth None before = Some None" using a1 by (rule traverse_unmatched)
  then have "traverse depth
      (Some \<lparr>meta = m, context' = c, report = emptyFindings\<rparr>) after = Some st"
    using a3 by (simp add: traverse_append visit_ObjectExpression_ruleShape a2)
  from traverse_keeps[OF this] show "\<exists>r'. st = Some r' \<and> meta r' = m \<and> context' r' = c"
    by simp
next
  show "lint depth events exitScope =
     (case traverse depth None events of
        None \<Rightarrow> None
      | Some ruleObject \<Rightarrow> visit_Program_exit depth exitScope ruleObject)"
    by (simp add: lint_def)
qed

theorem single_rule_object_witness:
  "\<exists>r'. traverse 2 None
      ([ObjectExpressionNode [nodeProperty]] @ ObjectExpressionNode (ruleProperties [fixableCode])
       # [reportCall [nodeProperty], ruleNode []]) = Some (Some r') \<and>
     meta r' = [fixableCode] \<and> context' r' = contextParam"
proof -
  let ?props = "ruleProperties [fixableCode]"
  let ?r = "ruleObjectOf [fixableCode] (emptyFindings\<lparr>found := True\<rparr>)"
  have 1: "\<forall>ps. ObjectExpressionNode ps \<in> set [ObjectExpressionNode [nodeProperty]] \<longrightarrow>
      ruleShape ps = None"
    by (simp add: ruleShape_def declaredProp_def nodeProperty_def)
  have 2: "ruleShape ?props = Some ([fixableCode], contextParam)"
    by (simp add: ruleShape_def declaredProp_def ruleProperties_def contextParam_def)
  have 3: "traverse 2 None ([ObjectExpressionNode [nodeProperty]] @ ObjectExpressionNode ?props
       # [reportCall [nodeProperty], ruleNode []]) = Some (Some ?r)"
    by (simp add: example_defs visit_ObjectExpression_def visit_CallExpression_def numeral_2_eq_2)
  from single_rule_object [of _ _ "[ObjectExpressionNode [nodeProperty]]" ?props
      "[fixableCode]" contextParam 2 "[reportCall [nodeProperty], ruleNode []]" "Some ?r"]
    1 2 3
  show ?thesis by (simp add: example_defs)
qed


text \<open>
  C10. A call with other than one argument leaves the rule object as it is: neither
  \<open>found\<close> nor \<open>hasUnknown\<close> is set, no node is recorded. In a file where every call
  \<open>x.report(...)\<close> whose \<open>x\<close> resolves to the context parameter of the rule object has
  other than one argument, the checker reports nothing. (The rule object is created by
  the first object expression of the shape \<open>{meta, create}\<close>; a call visited before it
  is ignored whatever its arguments.)
\<close>

theorem report_call_arity_ignored:
  "(length arguments \<noteq> 1 \<longrightarrow>
      visit_CallExpression depth scope ruleObject callee arguments = Some ruleObject) \<and>
   ((\<forall>ps. ObjectExpressionNode ps \<in> set before \<longrightarrow> ruleShape ps = None) \<and>
    ruleShape props = Some (m, ctx) \<and>
    (\<forall>scope callee arguments. CallExpressionNode scope callee arguments \<in> set after \<longrightarrow>
       isReportMember callee \<longrightarrow> bindsContext scope ctx callee \<longrightarrow> length arguments \<noteq> 1) \<longrightarrow>
      lint depth (before @ ObjectExpressionNode props # after) exitScope = Some [])"
proof (intro conjI impI)
  assume "length arguments \<noteq> 1"
  then show "visit_CallExpression depth scope ruleObject callee arguments = Some ruleObject"
    by (rule visit_CallExpression_arity)
next
  let ?r = "\<lparr>meta = m, context' = ctx, report = emptyFindings\<rparr>"
  assume a: "(\<forall>ps. ObjectExpressionNode ps \<in> set before \<longrightarrow> ruleShape ps = None) \<and>
    ruleShape props = Some (m, ctx) \<and>
    (\<forall>scope callee arguments. CallExpressionNode scope callee arguments \<in> set after \<longrightarrow>
       isReportMember callee \<longrightarrow> bindsContext scope ctx callee \<longrightarrow> length arguments \<noteq> 1)"
  then have "traverse depth None before = Some None" by (simp add: traverse_unmatched)
  moreover have "visit_ObjectExpression None props = Some ?r"
    using a by (simp add: visit_ObjectExpression_ruleShape)
  moreover have "traverse depth (Some ?r) after = Some (Some ?r)"
    using a by (intro traverse_ignored) simp
  ultimately have "traverse depth None (before @ ObjectExpressionNode props # after) = Some (Some ?r)"
    by (simp add: traverse_append)
  then show "lint depth (before @ ObjectExpressionNode props # after) exitScope = Some []"
    by (simp add: lint_def visit_Program_exit_def emptyFindings_def)
qed

theorem report_call_arity_ignored_witness:
  "visit_CallExpression 2 createScope (Some (ruleObjectOf [] emptyFindings)) reportCallee
     [ObjectExpression [nodeProperty, fixProperty], Identifier 120 ''extra''] =
     Some (Some (ruleObjectOf [] emptyFindings)) \<and>
   isReportMember reportCallee \<and> bindsContext createScope contextParam reportCallee \<and>
   lint 2 ([] @ ObjectExpressionNode (ruleProperties [fixableCode]) # [twoArguments]) noScope =
     Some []"
proof -
  have 1: "length [ObjectExpression [nodeProperty, fixProperty], Identifier 120 ''extra''] \<noteq> 1"
    by simp
  have 2: "\<forall>ps. ObjectExpressionNode ps \<in> set [] \<longrightarrow> ruleShape ps = None" by simp
  have 3: "ruleShape (ruleProperties [fixableCode]) = Some ([fixableCode], contextParam)"
    by (simp add: ruleShape_def declaredProp_def ruleProperties_def contextParam_def)
  have 4: "\<forall>scope callee arguments.
      CallExpressionNode scope callee arguments \<in> set [twoArguments] \<longrightarrow>
      isReportMember callee \<longrightarrow> bindsContext scope contextParam callee \<longrightarrow>
      length arguments \<noteq> 1"
    by (simp add: twoArguments_def)
  have 5: "isReportMember reportCallee" "bindsContext createScope contextParam reportCallee"
    by (simp_all add: reportCallee_def createScope_def declared_def contextParam_def)
  from report_call_arity_ignored [of
      "[ObjectExpression [nodeProperty, fixProperty], Identifier 120 ''extra'']" 2 createScope
      "Some (ruleObjectOf [] emptyFindings)" reportCallee "[]" "ruleProperties [fixableCode]"
      "[fixableCode]" contextParam "[twoArguments]" noScope]
    1 2 3 4 5
  show ?thesis by blast
qed

section \<open>Properties of \<open>verify\<close>\<close>

text \<open>
  C9. A declaration whose \<open>source\<close> is not a string literal is skipped: \<open>verify\<close>
  reports nothing, whatever the restricted paths and pattern groups are, and does not
  run the generator of import names (it returns normally even when that generator
  would throw).
\<close>

theorem verify_skips_without_string_source:
  assumes "\<not> isStringLiteral (source decl)"
  shows "verify restrictedPaths restrictedPatternGroups decl importKind generateImportNames = Some [] \<and>
         (declarationOf n = decl \<longrightarrow>
            no_restricted_imports restrictedPaths restrictedPatternGroups n = Some [])"
proof -
  have v: "verify restrictedPaths restrictedPatternGroups decl kind generated = Some []"
    for kind generated
    using assms by (simp add: verify_def)
  have "no_restricted_imports restrictedPaths restrictedPatternGroups n = Some []"
    if "declarationOf n = decl"
    using that by (cases n) (simp_all add: no_restricted_imports_def v)
  with v show ?thesis by simp
qed

theorem verify_skips_without_string_source_witness:
  "\<not> isStringLiteral (source localExport) \<and>
   verify [anyPath] [anyPattern] localExport ''value'' None = Some [] \<and>
   no_restricted_imports [anyPath] [anyPattern]
     (ExportNamedDeclaration localExport ''value'' [ExportSpecifier ''a'' 9]) = Some []"
proof -
  have 1: "\<not> isStringLiteral (source localExport)" by (simp add: localExport_def)
  from 1 verify_skips_without_string_source [OF 1, of "[anyPath]" "[anyPattern]" "''value''" None
      "ExportNamedDeclaration localExport ''value'' [ExportSpecifier ''a'' 9]"]
  show ?thesis by simp
qed

end
